theory Spec2Isabelle
  imports Complex_Main
begin

section \<open>The schema of supabase/migrations\<close>

text \<open>
  The rating aggregation of the application lives in the SQL migrations
  (\<^verbatim>\<open>supabase/migrations/20250831110118_....sql\<close>, which repeats the first migration
  idempotently) and in the three places of the front end that write to the tables
  (\<^verbatim>\<open>ReviewForm.handleSubmit\<close>, \<^verbatim>\<open>MyReviews.handleDeleteReview\<close>,
  \<^verbatim>\<open>handleWatchlistToggle\<close>). A table is the list of its rows, in insertion order.
  Only the columns that the constraints, the policies and the trigger read or write are
  kept; \<^verbatim>\<open>title\<close> stands for the catalogue columns of a movie that nothing here writes.
  The timestamp columns and the \<^verbatim>\<open>updated_at\<close> triggers are left out.
\<close>

type_synonym uuid = nat

text \<open>
  \<^verbatim>\<open>average_rating DECIMAL(3,2) DEFAULT 0.00\<close> and \<^verbatim>\<open>total_reviews INTEGER DEFAULT 0\<close>
  carry no \<^verbatim>\<open>NOT NULL\<close>, hence the option; a decimal is the rational number it denotes.
\<close>

record movie =
  movies_id :: uuid
  movies_title :: string
  movies_average_rating :: "rat option"
  movies_total_reviews :: "int option"

record review =
  reviews_id :: uuid
  reviews_user_id :: uuid
  reviews_movie_id :: uuid
  reviews_rating :: int
  reviews_review_text :: "string option"

record watchlist_entry =
  watchlist_id :: uuid
  watchlist_user_id :: uuid
  watchlist_movie_id :: uuid

record database =
  movies :: "movie list"
  reviews :: "review list"
  watchlist :: "watchlist_entry list"

text \<open>
  The conditions a statement can be aborted with, under their SQLSTATE names. The spec's
  \<^verbatim>\<open>DuplicateEntry\<close> is \<open>unique_violation\<close> (23505), its \<^verbatim>\<open>InvalidInput\<close> is
  \<open>check_violation\<close> (23514); a row that fails a policy's \<^verbatim>\<open>WITH CHECK\<close> is
  \<open>insufficient_privilege\<close> (42501).
\<close>

datatype pg_error =
    insufficient_privilege
  | check_violation
  | unique_violation
  | foreign_key_violation
  | numeric_value_out_of_range

section \<open>Row level security\<close>

text \<open>
  A statement runs in a session. \<^verbatim>\<open>auth.uid()\<close> is the signed-in user of the session, or
  NULL; \<open>bypass_rls\<close> holds for the roles that row security does not apply to (the
  table owner who runs the migrations, the service role). The front end signs in with a
  user's token: its sessions are \<open>client u\<close>.
\<close>

record session =
  bypass_rls :: bool
  auth_uid :: "uuid option"

definition client :: "uuid \<Rightarrow> session" where
  "client u = \<lparr>bypass_rls = False, auth_uid = Some u\<rparr>"

definition privileged :: session where
  "privileged = \<lparr>bypass_rls = True, auth_uid = None\<rparr>"

type_synonym 'row policy = "session \<Rightarrow> 'row \<Rightarrow> bool"

text \<open>
  All four tables have \<^verbatim>\<open>ENABLE ROW LEVEL SECURITY\<close> (lines 65 to 68 of the
  migration). The policies of a table for one command are permissive, so a row passes
  when one of them holds; with no policy for the command no row passes.
  \<^verbatim>\<open>auth.uid() = user_id\<close> is not true when \<^verbatim>\<open>auth.uid()\<close> is NULL.
\<close>

definition rls_allows :: "session \<Rightarrow> 'row policy list \<Rightarrow> 'row \<Rightarrow> bool" where
  "rls_allows s ps row = (bypass_rls s \<or> list_ex (\<lambda>p. p s row) ps)"

text \<open>\<^verbatim>\<open>"Users can create their own reviews" FOR INSERT WITH CHECK (auth.uid() = user_id)\<close>\<close>

definition reviews_insert_policies :: "review policy list" where
  "reviews_insert_policies = [\<lambda>s r. auth_uid s = Some (reviews_user_id r)]"

text \<open>\<^verbatim>\<open>"Users can update their own reviews" FOR UPDATE USING (auth.uid() = user_id)\<close>\<close>

definition reviews_update_policies :: "review policy list" where
  "reviews_update_policies = [\<lambda>s r. auth_uid s = Some (reviews_user_id r)]"

text \<open>\<^verbatim>\<open>"Users can delete their own reviews" FOR DELETE USING (auth.uid() = user_id)\<close>\<close>

definition reviews_delete_policies :: "review policy list" where
  "reviews_delete_policies = [\<lambda>s r. auth_uid s = Some (reviews_user_id r)]"

text \<open>
  \<^verbatim>\<open>public.movies\<close> has one policy in both migrations,
  \<^verbatim>\<open>"Movies are viewable by everyone" FOR SELECT USING (true)\<close> (lines 71 to 77):
  none for UPDATE.
\<close>

definition movies_update_policies :: "movie policy list" where
  "movies_update_policies = []"

text \<open>\<^verbatim>\<open>"Users can add to their own watchlist" FOR INSERT WITH CHECK (auth.uid() = user_id)\<close>\<close>

definition watchlist_insert_policies :: "watchlist_entry policy list" where
  "watchlist_insert_policies = [\<lambda>s w. auth_uid s = Some (watchlist_user_id w)]"

text \<open>
  \<^verbatim>\<open>"Users can remove from their own watchlist" FOR DELETE USING (auth.uid() = user_id)\<close>;
  the SELECT policy of the table, which a \<^verbatim>\<open>WHERE\<close> clause also needs, is the same
  condition.
\<close>

definition watchlist_delete_policies :: "watchlist_entry policy list" where
  "watchlist_delete_policies = [\<lambda>s w. auth_uid s = Some (watchlist_user_id w)]"

section \<open>The rating function and its triggers\<close>

text \<open>
  \<^verbatim>\<open>AVG(rating::DECIMAL)\<close> over no row is NULL, \<^verbatim>\<open>COALESCE(_, 0)\<close> replaces it. The
  average is taken as the exact quotient; it is rounded when it is stored.
\<close>

definition avg_rating :: "review list \<Rightarrow> rat option" where
  "avg_rating rs =
     (if rs = [] then None
      else Some (of_int (sum_list (map reviews_rating rs)) / of_nat (length rs)))"

fun coalesce :: "'a option \<Rightarrow> 'a option \<Rightarrow> 'a option" where
  "coalesce (Some x) y = Some x"
| "coalesce None y = y"

text \<open>
  Storing a numeric into \<^verbatim>\<open>DECIMAL(3,2)\<close> rounds it to two decimals, ties away from
  zero, and fails when the rounded value needs more than three digits. Storing the
  bigint of \<^verbatim>\<open>COUNT(*)\<close> into \<^verbatim>\<open>INTEGER\<close> fails beyond 32 bits.
\<close>

definition round_half_away :: "rat \<Rightarrow> int" where
  "round_half_away x = (if 0 \<le> x then \<lfloor>x + 1 / 2\<rfloor> else - \<lfloor>- x + 1 / 2\<rfloor>)"

definition to_decimal_3_2 :: "rat \<Rightarrow> pg_error + rat" where
  "to_decimal_3_2 x =
     (let u = round_half_away (x * 100)
      in if 1000 \<le> \<bar>u\<bar> then Inl numeric_value_out_of_range else Inr (of_int u / 100))"

definition to_integer :: "int \<Rightarrow> pg_error + int" where
  "to_integer n =
     (if n < - 2147483648 \<or> 2147483647 < n then Inl numeric_value_out_of_range else Inr n)"

text \<open>
  \<^verbatim>\<open>COALESCE(NEW.movie_id, OLD.movie_id)\<close>: \<open>NEW\<close> is absent in a DELETE trigger,
  \<open>OLD\<close> in an INSERT trigger, and \<^verbatim>\<open>movie_id\<close> is \<^verbatim>\<open>NOT NULL\<close>.
\<close>

definition target_movie_id :: "review option \<Rightarrow> review option \<Rightarrow> uuid option" where
  "target_movie_id NEW OLD =
     coalesce (map_option reviews_movie_id NEW) (map_option reviews_movie_id OLD)"

text \<open>
  \<^verbatim>\<open>update_movie_rating()\<close> (lines 160 to 174). The function is declared
  \<^verbatim>\<open>LANGUAGE plpgsql\<close> and nothing more: it is not \<^verbatim>\<open>SECURITY DEFINER\<close>, unlike
  \<^verbatim>\<open>handle_new_user()\<close> below it (line 222), so its \<^verbatim>\<open>UPDATE public.movies\<close>
  runs with the rights of the session that wrote the review and reaches the rows that
  the UPDATE policies of \<^verbatim>\<open>movies\<close> let through. The role of the session is taken to
  hold the UPDATE privilege on the table, as the platform grants it; without the
  privilege the call would be aborted, and the statement on \<^verbatim>\<open>reviews\<close> with it.
  The two subqueries read \<^verbatim>\<open>reviews\<close>, which everyone may select. They are evaluated
  for a row that is updated; when the \<^verbatim>\<open>WHERE\<close> reaches no row nothing is evaluated
  and nothing fails.
\<close>

definition update_movie_rating ::
  "session \<Rightarrow> review option \<Rightarrow> review option \<Rightarrow> database \<Rightarrow> pg_error + database" where
  "update_movie_rating s NEW OLD db =
     (let target = target_movie_id NEW OLD;
          rows = filter (\<lambda>r. Some (reviews_movie_id r) = target) (reviews db);
          reached = (\<lambda>m. Some (movies_id m) = target \<and> rls_allows s movies_update_policies m)
      in if \<not> list_ex reached (movies db) then Inr db
         else
           (case to_decimal_3_2 (case coalesce (avg_rating rows) (Some 0) of
                                   Some a \<Rightarrow> a | None \<Rightarrow> 0) of
              Inl e \<Rightarrow> Inl e
            | Inr a \<Rightarrow>
                (case to_integer (int (length rows)) of
                   Inl e \<Rightarrow> Inl e
                 | Inr n \<Rightarrow>
                     Inr (db\<lparr>movies :=
                       map (\<lambda>m. if reached m
                                 then m\<lparr>movies_average_rating := Some a,
                                        movies_total_reviews := Some n\<rparr>
                                 else m) (movies db)\<rparr>))))"

text \<open>
  \<^verbatim>\<open>update_movie_rating_on_insert\<close>, \<^verbatim>\<open>_on_update\<close>, \<^verbatim>\<open>_on_delete\<close>:
  \<^verbatim>\<open>AFTER ... ON public.reviews FOR EACH ROW\<close>. The events of a statement are queued
  and run when the statement has changed all its rows, one call per row; an error in
  one of them aborts the statement.
\<close>

type_synonym trigger_event = "review option \<times> review option"

fun fire_triggers :: "session \<Rightarrow> trigger_event list \<Rightarrow> database \<Rightarrow> pg_error + database" where
  "fire_triggers s [] db = Inr db"
| "fire_triggers s ((NEW, OLD) # evs) db =
     (case update_movie_rating s NEW OLD db of
        Inl e \<Rightarrow> Inl e
      | Inr db' \<Rightarrow> fire_triggers s evs db')"

section \<open>Statements on the tables\<close>

text \<open>
  The constraints of \<^verbatim>\<open>public.reviews\<close>: \<^verbatim>\<open>CHECK (rating >= 1 AND rating <= 5)\<close>,
  \<^verbatim>\<open>PRIMARY KEY (id)\<close>, \<^verbatim>\<open>UNIQUE(user_id, movie_id)\<close> and
  \<^verbatim>\<open>movie_id REFERENCES public.movies(id)\<close>. The column is \<^verbatim>\<open>INTEGER\<close>, so a rating
  is an \<open>int\<close>. \<^verbatim>\<open>auth.users\<close> is not a table of this repository and the reference
  to it is not checked here.
\<close>

text \<open>
  \<^verbatim>\<open>rating INTEGER\<close> is a 32-bit column. A value that a statement gives for it is
  converted to the column type when the statement computes it, before any policy or row
  is looked at; a value that does not fit aborts the statement with
  \<open>numeric_value_out_of_range\<close> (22003).
\<close>

definition fits_integer :: "int \<Rightarrow> bool" where
  "fits_integer k = (- 2147483648 \<le> k \<and> k \<le> 2147483647)"

definition rating_check :: "review \<Rightarrow> bool" where
  "rating_check r = (1 \<le> reviews_rating r \<and> reviews_rating r \<le> 5)"

definition same_pair :: "review \<Rightarrow> review \<Rightarrow> bool" where
  "same_pair r r' =
     (reviews_user_id r' = reviews_user_id r \<and> reviews_movie_id r' = reviews_movie_id r)"

definition movie_exists :: "database \<Rightarrow> uuid \<Rightarrow> bool" where
  "movie_exists db mid = list_ex (\<lambda>m. movies_id m = mid) (movies db)"

text \<open>
  A statement on \<^verbatim>\<open>reviews\<close> first writes its rows, which queues one call of the rating
  function per row written, or is aborted by a conversion, a policy or a constraint; then
  the queued calls run on the tables that the rows left.
\<close>

type_synonym rows_written = "pg_error + trigger_event list \<times> database"

definition queued :: "rows_written \<Rightarrow> trigger_event list" where
  "queued res = (case res of Inl e \<Rightarrow> [] | Inr (evs, mid) \<Rightarrow> evs)"

definition after_row_triggers :: "session \<Rightarrow> rows_written \<Rightarrow> pg_error + database" where
  "after_row_triggers s res =
     (case res of Inl e \<Rightarrow> Inl e | Inr (evs, mid) \<Rightarrow> fire_triggers s evs mid)"

text \<open>
  \<^verbatim>\<open>INSERT INTO reviews\<close> of one row. The order is the engine's: the conversion of the
  values, the policy's \<^verbatim>\<open>WITH CHECK\<close>, the check constraint, the unique indexes, then
  at the end of the statement the foreign key and the rating trigger. The \<open>id\<close> of the
  row is the value that \<^verbatim>\<open>gen_random_uuid()\<close> drew.
\<close>

definition insert_review_rows :: "session \<Rightarrow> review \<Rightarrow> database \<Rightarrow> rows_written" where
  "insert_review_rows s r db =
     (if \<not> fits_integer (reviews_rating r) then Inl numeric_value_out_of_range
      else if \<not> rls_allows s reviews_insert_policies r then Inl insufficient_privilege
      else if \<not> rating_check r then Inl check_violation
      else if list_ex (\<lambda>r'. reviews_id r' = reviews_id r) (reviews db)
              \<or> list_ex (same_pair r) (reviews db) then Inl unique_violation
      else if \<not> movie_exists db (reviews_movie_id r) then Inl foreign_key_violation
      else Inr ([(Some r, None)], db\<lparr>reviews := reviews db @ [r]\<rparr>))"

definition insert_review :: "session \<Rightarrow> review \<Rightarrow> database \<Rightarrow> pg_error + database" where
  "insert_review s r db = after_row_triggers s (insert_review_rows s r db)"

text \<open>
  \<^verbatim>\<open>UPDATE reviews SET ... WHERE wh\<close>, for a \<^verbatim>\<open>SET\<close> list over \<^verbatim>\<open>rating\<close>,
  \<^verbatim>\<open>review_text\<close> and \<^verbatim>\<open>movie_id\<close> (the schema lets the owner of a review set all
  three). The policy's \<^verbatim>\<open>USING\<close> filters the rows that the statement sees; with no
  \<^verbatim>\<open>WITH CHECK\<close> of its own the policy applies the same condition to the new rows.
\<close>

record review_patch =
  set_rating :: "int option"
  set_review_text :: "string option option"
  set_movie_id :: "uuid option"

definition apply_patch :: "review_patch \<Rightarrow> review \<Rightarrow> review" where
  "apply_patch p r =
     r\<lparr>reviews_rating := (case set_rating p of Some x \<Rightarrow> x | None \<Rightarrow> reviews_rating r),
       reviews_review_text :=
         (case set_review_text p of Some t \<Rightarrow> t | None \<Rightarrow> reviews_review_text r),
       reviews_movie_id :=
         (case set_movie_id p of Some m \<Rightarrow> m | None \<Rightarrow> reviews_movie_id r)\<rparr>"

definition update_hit :: "session \<Rightarrow> (review \<Rightarrow> bool) \<Rightarrow> review \<Rightarrow> bool" where
  "update_hit s wh r = (wh r \<and> rls_allows s reviews_update_policies r)"

text \<open>
  The new rating of the \<^verbatim>\<open>SET\<close> list is a value of the statement, converted to the
  column type once, before the rows are scanned.
\<close>

definition patch_fits :: "review_patch \<Rightarrow> bool" where
  "patch_fits p = (case set_rating p of None \<Rightarrow> True | Some k \<Rightarrow> fits_integer k)"

definition update_reviews_rows ::
  "session \<Rightarrow> (review \<Rightarrow> bool) \<Rightarrow> review_patch \<Rightarrow> database \<Rightarrow> rows_written" where
  "update_reviews_rows s wh p db =
     (if \<not> patch_fits p then Inl numeric_value_out_of_range
      else
        (let olds = filter (update_hit s wh) (reviews db);
             news = map (apply_patch p) olds;
             table = map (\<lambda>r. if update_hit s wh r then apply_patch p r else r) (reviews db)
         in if list_ex (\<lambda>r. \<not> rls_allows s reviews_update_policies r) news
            then Inl insufficient_privilege
            else if list_ex (\<lambda>r. \<not> rating_check r) news then Inl check_violation
            else if list_ex (\<lambda>r. 1 < length (filter (same_pair r) table)) news
            then Inl unique_violation
            else if list_ex (\<lambda>r. \<not> movie_exists db (reviews_movie_id r)) news
            then Inl foreign_key_violation
            else Inr (zip (map Some news) (map Some olds), db\<lparr>reviews := table\<rparr>)))"

definition update_reviews ::
  "session \<Rightarrow> (review \<Rightarrow> bool) \<Rightarrow> review_patch \<Rightarrow> database \<Rightarrow> pg_error + database" where
  "update_reviews s wh p db = after_row_triggers s (update_reviews_rows s wh p db)"

text \<open>\<^verbatim>\<open>DELETE FROM reviews WHERE wh\<close>: the rows that the policy's \<^verbatim>\<open>USING\<close> lets through.\<close>

definition delete_hit :: "session \<Rightarrow> (review \<Rightarrow> bool) \<Rightarrow> review \<Rightarrow> bool" where
  "delete_hit s wh r = (wh r \<and> rls_allows s reviews_delete_policies r)"

definition delete_reviews_rows :: "session \<Rightarrow> (review \<Rightarrow> bool) \<Rightarrow> database \<Rightarrow> rows_written" where
  "delete_reviews_rows s wh db =
     Inr (map (\<lambda>r. (None, Some r)) (filter (delete_hit s wh) (reviews db)),
          db\<lparr>reviews := filter (\<lambda>r. \<not> delete_hit s wh r) (reviews db)\<rparr>)"

definition delete_reviews ::
  "session \<Rightarrow> (review \<Rightarrow> bool) \<Rightarrow> database \<Rightarrow> pg_error + database" where
  "delete_reviews s wh db = after_row_triggers s (delete_reviews_rows s wh db)"

text \<open>
  \<^verbatim>\<open>public.watchlist\<close>: \<^verbatim>\<open>PRIMARY KEY (id)\<close>, \<^verbatim>\<open>UNIQUE(user_id, movie_id)\<close>,
  \<^verbatim>\<open>movie_id REFERENCES public.movies(id)\<close>, and no trigger.
\<close>

definition same_entry :: "watchlist_entry \<Rightarrow> watchlist_entry \<Rightarrow> bool" where
  "same_entry w w' =
     (watchlist_user_id w' = watchlist_user_id w \<and> watchlist_movie_id w' = watchlist_movie_id w)"

definition insert_watchlist ::
  "session \<Rightarrow> watchlist_entry \<Rightarrow> database \<Rightarrow> pg_error + database" where
  "insert_watchlist s w db =
     (if \<not> rls_allows s watchlist_insert_policies w then Inl insufficient_privilege
      else if list_ex (\<lambda>w'. watchlist_id w' = watchlist_id w) (watchlist db)
              \<or> list_ex (same_entry w) (watchlist db) then Inl unique_violation
      else if \<not> movie_exists db (watchlist_movie_id w) then Inl foreign_key_violation
      else Inr (db\<lparr>watchlist := watchlist db @ [w]\<rparr>))"

definition delete_watchlist ::
  "session \<Rightarrow> (watchlist_entry \<Rightarrow> bool) \<Rightarrow> database \<Rightarrow> pg_error + database" where
  "delete_watchlist s wh db =
     Inr (db\<lparr>watchlist :=
       filter (\<lambda>w. \<not> (wh w \<and> rls_allows s watchlist_delete_policies w)) (watchlist db)\<rparr>)"

datatype statement =
    InsertReview review
  | UpdateReviews "review \<Rightarrow> bool" review_patch
  | DeleteReviews "review \<Rightarrow> bool"
  | InsertWatchlist watchlist_entry
  | DeleteWatchlist "watchlist_entry \<Rightarrow> bool"

fun execute :: "session \<Rightarrow> statement \<Rightarrow> database \<Rightarrow> pg_error + database" where
  "execute s (InsertReview r) db = insert_review s r db"
| "execute s (UpdateReviews wh p) db = update_reviews s wh p db"
| "execute s (DeleteReviews wh) db = delete_reviews s wh db"
| "execute s (InsertWatchlist w) db = insert_watchlist s w db"
| "execute s (DeleteWatchlist wh) db = delete_watchlist s wh db"

text \<open>
  What a caller has after a statement: the error, if any, and the tables. An aborted
  statement leaves the tables as they were; that is the engine's doing, not the
  migration's.
\<close>

definition run :: "session \<Rightarrow> statement \<Rightarrow> database \<Rightarrow> pg_error option \<times> database" where
  "run s st db = (case execute s st db of Inl e \<Rightarrow> (Some e, db) | Inr db' \<Rightarrow> (None, db'))"

text \<open>The movie ids that the rating trigger is called for by a statement.\<close>

fun trigger_targets :: "session \<Rightarrow> statement \<Rightarrow> database \<Rightarrow> uuid list" where
  "trigger_targets s (InsertReview r) db = [reviews_movie_id r]"
| "trigger_targets s (UpdateReviews wh p) db =
     map (\<lambda>r. reviews_movie_id (apply_patch p r)) (filter (update_hit s wh) (reviews db))"
| "trigger_targets s (DeleteReviews wh) db =
     map reviews_movie_id (filter (delete_hit s wh) (reviews db))"
| "trigger_targets s (InsertWatchlist w) db = []"
| "trigger_targets s (DeleteWatchlist wh) db = []"

text \<open>
  The calls of the rating function that a statement queues: none when the statement is
  aborted while it writes its rows, and none for the watchlist, which has no trigger.
\<close>

fun trigger_calls :: "session \<Rightarrow> statement \<Rightarrow> database \<Rightarrow> trigger_event list" where
  "trigger_calls s (InsertReview r) db = queued (insert_review_rows s r db)"
| "trigger_calls s (UpdateReviews wh p) db = queued (update_reviews_rows s wh p db)"
| "trigger_calls s (DeleteReviews wh) db = queued (delete_reviews_rows s wh db)"
| "trigger_calls s (InsertWatchlist w) db = []"
| "trigger_calls s (DeleteWatchlist wh) db = []"

text \<open>
  A statement may give the rating as any numeric, \<^verbatim>\<open>4.5\<close> say. The assignment to the
  \<^verbatim>\<open>INTEGER\<close> column rounds it to the nearest integer, ties away from zero, and aborts
  the statement with \<open>numeric_value_out_of_range\<close> when the rounded value does not fit;
  the statement then goes on with the integer. \<open>InsertRated r x\<close> inserts the row
  \<open>r\<close> with the rating \<open>x\<close>, \<open>UpdateRated wh p x\<close> is the update of \<open>p\<close> with
  \<^verbatim>\<open>SET rating = x\<close>. (How the REST layer between the front end and the tables reads a
  number is not code of this repository.)
\<close>

definition assign_integer :: "rat \<Rightarrow> pg_error + int" where
  "assign_integer x =
     (if fits_integer (round_half_away x) then Inr (round_half_away x)
      else Inl numeric_value_out_of_range)"

datatype rated_statement =
    InsertRated review rat
  | UpdateRated "review \<Rightarrow> bool" review_patch rat

fun with_rating :: "rated_statement \<Rightarrow> int \<Rightarrow> statement" where
  "with_rating (InsertRated r x) k = InsertReview (r\<lparr>reviews_rating := k\<rparr>)"
| "with_rating (UpdateRated wh p x) k = UpdateReviews wh (p\<lparr>set_rating := Some k\<rparr>)"

fun rating_of :: "rated_statement \<Rightarrow> rat" where
  "rating_of (InsertRated r x) = x"
| "rating_of (UpdateRated wh p x) = x"

definition execute_rated ::
  "session \<Rightarrow> rated_statement \<Rightarrow> database \<Rightarrow> pg_error + database" where
  "execute_rated s st db =
     (case assign_integer (rating_of st) of
        Inl e \<Rightarrow> Inl e
      | Inr k \<Rightarrow> execute s (with_rating st k) db)"

definition run_rated ::
  "session \<Rightarrow> rated_statement \<Rightarrow> database \<Rightarrow> pg_error option \<times> database" where
  "run_rated s st db =
     (case execute_rated s st db of Inl e \<Rightarrow> (Some e, db) | Inr db' \<Rightarrow> (None, db'))"

definition rated_trigger_calls ::
  "session \<Rightarrow> rated_statement \<Rightarrow> database \<Rightarrow> trigger_event list" where
  "rated_trigger_calls s st db =
     (case assign_integer (rating_of st) of
        Inl e \<Rightarrow> []
      | Inr k \<Rightarrow> trigger_calls s (with_rating st k) db)"

section \<open>The front end's writes\<close>

text \<open>
  \<^verbatim>\<open>ReviewForm.handleSubmit\<close>: returns at once without a user or with the rating still 0;
  otherwise inserts the row for the signed-in user and shows the toast of the outcome.
  \<open>text\<close> is the value of \<^verbatim>\<open>reviewText.trim() || null\<close>.
\<close>

definition handleSubmit ::
  "uuid option \<Rightarrow> uuid \<Rightarrow> int \<Rightarrow> string option \<Rightarrow> uuid \<Rightarrow> database \<Rightarrow> string option \<times> database"
  where
  "handleSubmit user movieId rating text new_id db =
     (case user of
        None \<Rightarrow> (None, db)
      | Some u \<Rightarrow>
          if rating = 0 then (None, db)
          else
            (case run (client u)
                    (InsertReview \<lparr>reviews_id = new_id, reviews_user_id = u,
                       reviews_movie_id = movieId, reviews_rating = rating,
                       reviews_review_text = text\<rparr>) db of
               (Some e, db') \<Rightarrow> (Some ''Error'', db')
             | (None, db') \<Rightarrow> (Some ''Review submitted'', db')))"

text \<open>
  \<^verbatim>\<open>MyReviews.handleDeleteReview\<close>: after the confirmation dialog,
  \<^verbatim>\<open>.delete().eq('id', reviewId).eq('user_id', user.id)\<close>. The result of the call is not
  looked at (the client library returns an error, it does not throw it), so the toast is
  always the same.
\<close>

definition handleDeleteReview ::
  "uuid option \<Rightarrow> uuid \<Rightarrow> bool \<Rightarrow> database \<Rightarrow> string option \<times> database" where
  "handleDeleteReview user reviewId confirmed db =
     (case user of
        None \<Rightarrow> (None, db)
      | Some u \<Rightarrow>
          if \<not> confirmed then (None, db)
          else (Some ''Review deleted'',
                snd (run (client u)
                  (DeleteReviews (\<lambda>r. reviews_id r = reviewId \<and> reviews_user_id r = u)) db)))"

text \<open>
  \<^verbatim>\<open>handleWatchlistToggle\<close> of the movie page (\<^verbatim>\<open>pages/Home.tsx\<close>): deletes or
  inserts the pair according to the page's own flag, whose new value it returns. Here
  too the result of the call is not looked at.
\<close>

definition handleWatchlistToggle ::
  "uuid option \<Rightarrow> uuid \<Rightarrow> bool \<Rightarrow> uuid \<Rightarrow> database \<Rightarrow> string \<times> bool \<times> database" where
  "handleWatchlistToggle user movieId isInWatchlist new_id db =
     (case user of
        None \<Rightarrow> (''Sign in required'', isInWatchlist, db)
      | Some u \<Rightarrow>
          if isInWatchlist
          then (''Removed from watchlist'', False,
                snd (run (client u)
                  (DeleteWatchlist
                    (\<lambda>w. watchlist_user_id w = u \<and> watchlist_movie_id w = movieId)) db))
          else (''Added to watchlist'', True,
                snd (run (client u)
                  (InsertWatchlist \<lparr>watchlist_id = new_id, watchlist_user_id = u,
                     watchlist_movie_id = movieId\<rparr>) db)))"

section \<open>What the spec asks of the aggregate\<close>

text \<open>
  P1 of the spec, in its own words: \<^verbatim>\<open>total_reviews\<close> is the number of reviews of the
  movie and \<^verbatim>\<open>average_rating\<close> is their mean rounded to two decimals, or 0.00 when
  there is none. The rounding of a tie is the one of the column type.
\<close>

definition reviews_of :: "database \<Rightarrow> uuid \<Rightarrow> review list" where
  "reviews_of db mid = filter (\<lambda>r. reviews_movie_id r = mid) (reviews db)"

definition spec_total_reviews :: "database \<Rightarrow> uuid \<Rightarrow> int" where
  "spec_total_reviews db mid = int (length (reviews_of db mid))"

definition spec_average_rating :: "database \<Rightarrow> uuid \<Rightarrow> rat" where
  "spec_average_rating db mid =
     (if reviews_of db mid = [] then 0
      else of_int (round_half_away
             (of_int (sum_list (map reviews_rating (reviews_of db mid)))
                / of_nat (length (reviews_of db mid)) * 100)) / 100)"

definition movie_consistent :: "database \<Rightarrow> movie \<Rightarrow> bool" where
  "movie_consistent db m =
     (movies_total_reviews m = Some (spec_total_reviews db (movies_id m))
      \<and> movies_average_rating m = Some (spec_average_rating db (movies_id m)))"

definition aggregates_consistent :: "database \<Rightarrow> bool" where
  "aggregates_consistent db = list_all (movie_consistent db) (movies db)"

text \<open>P2 of the spec: one review per user and movie; and the same for the watchlist.\<close>

definition pair_of :: "review \<Rightarrow> uuid \<times> uuid" where
  "pair_of r = (reviews_user_id r, reviews_movie_id r)"

definition reviews_unique :: "database \<Rightarrow> bool" where
  "reviews_unique db = distinct (map pair_of (reviews db))"

definition entry_of :: "watchlist_entry \<Rightarrow> uuid \<times> uuid" where
  "entry_of w = (watchlist_user_id w, watchlist_movie_id w)"

definition watchlist_unique :: "database \<Rightarrow> bool" where
  "watchlist_unique db = distinct (map entry_of (watchlist db))"

text \<open>A sequence of statements, each in its session; an aborted one changes nothing.\<close>

fun run_all :: "(session \<times> statement) list \<Rightarrow> database \<Rightarrow> database" where
  "run_all [] db = db"
| "run_all ((s, st) # rest) db = run_all rest (snd (run s st db))"

text \<open>The aggregate of a movie as a reader sees it, after each statement of a sequence.\<close>

definition aggregate :: "database \<Rightarrow> uuid \<Rightarrow> (rat option \<times> int option) list" where
  "aggregate db mid =
     map (\<lambda>m. (movies_average_rating m, movies_total_reviews m))
       (filter (\<lambda>m. movies_id m = mid) (movies db))"

fun aggregates_along ::
  "(session \<times> statement) list \<Rightarrow> uuid \<Rightarrow> database
     \<Rightarrow> (pg_error option \<times> (rat option \<times> int option) list) list" where
  "aggregates_along [] mid db = []"
| "aggregates_along ((s, st) # rest) mid db =
     (fst (run s st db), aggregate (snd (run s st db)) mid)
       # aggregates_along rest mid (snd (run s st db))"

section \<open>Tables for the scenarios\<close>

text \<open>
  Two movies as the seed leaves them (X is 7, Y is 8), the users 1 and 2, and Scenario A
  of the spec: user 1 rates X with 4, user 2 with 5, user 1 changes the rating to 2,
  user 2 deletes, user 1 deletes. \<open>as\<close> gives the session a user's statement runs in.
\<close>

definition movieX :: movie where
  "movieX = \<lparr>movies_id = 7, movies_title = ''X'',
     movies_average_rating = Some 0, movies_total_reviews = Some 0\<rparr>"

definition movieY :: movie where
  "movieY = \<lparr>movies_id = 8, movies_title = ''Y'',
     movies_average_rating = Some 0, movies_total_reviews = Some 0\<rparr>"

definition seeded :: database where
  "seeded = \<lparr>movies = [movieX, movieY], reviews = [], watchlist = []\<rparr>"

definition rated :: "uuid \<Rightarrow> uuid \<Rightarrow> uuid \<Rightarrow> int \<Rightarrow> review" where
  "rated rid u mid k =
     \<lparr>reviews_id = rid, reviews_user_id = u, reviews_movie_id = mid, reviews_rating = k,
      reviews_review_text = None\<rparr>"

definition set_rating_to :: "int \<Rightarrow> review_patch" where
  "set_rating_to k = \<lparr>set_rating = Some k, set_review_text = None, set_movie_id = None\<rparr>"

definition move_to :: "uuid \<Rightarrow> review_patch" where
  "move_to mid = \<lparr>set_rating = None, set_review_text = None, set_movie_id = Some mid\<rparr>"

definition scenario_A :: "(uuid \<Rightarrow> session) \<Rightarrow> (session \<times> statement) list" where
  "scenario_A as =
     [(as 1, InsertReview (rated 11 1 7 4)),
      (as 2, InsertReview (rated 12 2 7 5)),
      (as 1, UpdateReviews (\<lambda>r. reviews_id r = 11) (set_rating_to 2)),
      (as 2, DeleteReviews (\<lambda>r. reviews_id r = 12)),
      (as 1, DeleteReviews (\<lambda>r. reviews_id r = 11))]"

text \<open>X with one review, by user 1, and the aggregate that belongs to it.\<close>

definition once_rated :: database where
  "once_rated =
     \<lparr>movies = [movieX\<lparr>movies_average_rating := Some 4, movies_total_reviews := Some 1\<rparr>,
                 movieY],
      reviews = [rated 11 1 7 4], watchlist = []\<rparr>"

definition listed :: "uuid \<Rightarrow> uuid \<Rightarrow> uuid \<Rightarrow> watchlist_entry" where
  "listed wid u mid = \<lparr>watchlist_id = wid, watchlist_user_id = u, watchlist_movie_id = mid\<rparr>"

text \<open>\<open>once_rated\<close> after its review has been moved from X to Y by a privileged session.\<close>

definition moved :: database where
  "moved =
     \<lparr>movies = [movieX\<lparr>movies_average_rating := Some 4, movies_total_reviews := Some 1\<rparr>,
                 movieY\<lparr>movies_average_rating := Some 4, movies_total_reviews := Some 1\<rparr>],
      reviews = [rated 11 1 8 4], watchlist = []\<rparr>"

text \<open>The seeded tables with X on the watchlist of user 1.\<close>

definition watched :: database where
  "watched = seeded\<lparr>watchlist := [listed 21 1 7]\<rparr>"

text \<open>
  \<open>seeded\<close> after user 1 has submitted the rating 4 for X through the front end, and
  \<open>once_rated\<close> after user 1 has deleted the review through the front end.
\<close>

definition submitted :: database where
  "submitted = seeded\<lparr>reviews := [rated 11 1 7 4]\<rparr>"

definition retracted :: database where
  "retracted = once_rated\<lparr>reviews := []\<rparr>"


text \<open>A statement that leaves every review with its movie.\<close>

fun keeps_movie :: "statement \<Rightarrow> bool" where
  "keeps_movie (UpdateReviews wh p) = (set_movie_id p = None)"
| "keeps_movie st = True"

section \<open>The rating trigger: what it leaves alone\<close>

text \<open>The three statements on \<^verbatim>\<open>reviews\<close>, rows and trigger calls in one.\<close>

lemma insert_review_unfold:
  "insert_review s r db =
     (if \<not> fits_integer (reviews_rating r) then Inl numeric_value_out_of_range
      else if \<not> rls_allows s reviews_insert_policies r then Inl insufficient_privilege
      else if \<not> rating_check r then Inl check_violation
      else if list_ex (\<lambda>r'. reviews_id r' = reviews_id r) (reviews db)
              \<or> list_ex (same_pair r) (reviews db) then Inl unique_violation
      else if \<not> movie_exists db (reviews_movie_id r) then Inl foreign_key_violation
      else fire_triggers s [(Some r, None)] (db\<lparr>reviews := reviews db @ [r]\<rparr>))"
  by (simp add: insert_review_def insert_review_rows_def after_row_triggers_def)

lemma update_reviews_unfold:
  "update_reviews s wh p db =
     (if \<not> patch_fits p then Inl numeric_value_out_of_range
      else
        (let olds = filter (update_hit s wh) (reviews db);
             news = map (apply_patch p) olds;
             table = map (\<lambda>r. if update_hit s wh r then apply_patch p r else r) (reviews db)
         in if list_ex (\<lambda>r. \<not> rls_allows s reviews_update_policies r) news
            then Inl insufficient_privilege
            else if list_ex (\<lambda>r. \<not> rating_check r) news then Inl check_violation
            else if list_ex (\<lambda>r. 1 < length (filter (same_pair r) table)) news
            then Inl unique_violation
            else if list_ex (\<lambda>r. \<not> movie_exists db (reviews_movie_id r)) news
            then Inl foreign_key_violation
            else fire_triggers s (zip (map Some news) (map Some olds))
                   (db\<lparr>reviews := table\<rparr>)))"
  by (simp add: update_reviews_def update_reviews_rows_def after_row_triggers_def Let_def)

lemma delete_reviews_unfold:
  "delete_reviews s wh db =
     fire_triggers s (map (\<lambda>r. (None, Some r)) (filter (delete_hit s wh) (reviews db)))
       (db\<lparr>reviews := filter (\<lambda>r. \<not> delete_hit s wh r) (reviews db)\<rparr>)"
  by (simp add: delete_reviews_def delete_reviews_rows_def after_row_triggers_def)

lemma update_movie_rating_client:
  "\<not> bypass_rls s \<Longrightarrow> update_movie_rating s NEW OLD db = Inr db"
  by (simp add: update_movie_rating_def rls_allows_def movies_update_policies_def
      list_ex_iff Let_def)

lemma fire_triggers_client:
  "\<not> bypass_rls s \<Longrightarrow> fire_triggers s evs db = Inr db"
  by (induction evs) (auto simp: update_movie_rating_client)

lemma update_movie_rating_tables:
  assumes "update_movie_rating s NEW OLD db = Inr db'"
  shows "reviews db' = reviews db \<and> watchlist db' = watchlist db
         \<and> length (movies db') = length (movies db)"
  using assms
  by (auto simp: update_movie_rating_def Let_def split: if_splits sum.splits)

lemma update_movie_rating_row:
  assumes "update_movie_rating s NEW OLD db = Inr db'" and "i < length (movies db)"
  shows "movies_id (movies db' ! i) = movies_id (movies db ! i)
         \<and> movies_title (movies db' ! i) = movies_title (movies db ! i)
         \<and> (Some (movies_id (movies db ! i)) \<noteq> target_movie_id NEW OLD
              \<longrightarrow> movies db' ! i = movies db ! i)"
  using assms
  by (auto simp: update_movie_rating_def Let_def split: if_splits sum.splits)

lemma fire_triggers_tables:
  "fire_triggers s evs db = Inr db' \<Longrightarrow>
   reviews db' = reviews db \<and> watchlist db' = watchlist db
   \<and> length (movies db') = length (movies db)"
proof (induction evs arbitrary: db)
  case Nil
  then show ?case by simp
next
  case (Cons ev evs)
  obtain NEW OLD where ev: "ev = (NEW, OLD)" by (cases ev)
  from Cons.prems ev obtain db1 where
    s1: "update_movie_rating s NEW OLD db = Inr db1" and s2: "fire_triggers s evs db1 = Inr db'"
    by (auto split: sum.splits)
  from Cons.IH [OF s2] update_movie_rating_tables [OF s1] show ?case by simp
qed

lemma fire_triggers_row:
  "fire_triggers s evs db = Inr db' \<Longrightarrow> i < length (movies db) \<Longrightarrow>
   movies_id (movies db' ! i) = movies_id (movies db ! i)
   \<and> movies_title (movies db' ! i) = movies_title (movies db ! i)
   \<and> (Some (movies_id (movies db ! i)) \<notin> set (map (\<lambda>ev. target_movie_id (fst ev) (snd ev)) evs)
        \<longrightarrow> movies db' ! i = movies db ! i)"
proof (induction evs arbitrary: db)
  case Nil
  then show ?case by simp
next
  case (Cons ev evs)
  obtain NEW OLD where ev: "ev = (NEW, OLD)" by (cases ev)
  from Cons.prems ev obtain db1 where
    s1: "update_movie_rating s NEW OLD db = Inr db1" and s2: "fire_triggers s evs db1 = Inr db'"
    by (auto split: sum.splits)
  have len: "i < length (movies db1)"
    using update_movie_rating_tables [OF s1] Cons.prems(2) by simp
  from Cons.IH [OF s2 len] update_movie_rating_row [OF s1 Cons.prems(2)] ev
  show ?case by auto
qed

lemma targets_of_update_events:
  "map (\<lambda>ev. target_movie_id (fst ev) (snd ev)) (zip (map (\<lambda>x. Some (f x)) olds) (map Some olds))
   = map (\<lambda>r. Some (reviews_movie_id (f r))) olds"
  by (induction olds) (simp_all add: target_movie_id_def)

lemma execute_events:
  assumes "execute s st db = Inr db'"
  shows "\<exists>evs mid. fire_triggers s evs mid = Inr db' \<and> movies mid = movies db
           \<and> watchlist mid = watchlist db
           \<and> map (\<lambda>ev. target_movie_id (fst ev) (snd ev)) evs
               = map Some (trigger_targets s st db)
         \<or> (trigger_targets s st db = [] \<and> movies db' = movies db
             \<and> reviews db' = reviews db)"
proof (cases st)
  case (InsertReview r)
  with assms have
    "fire_triggers s [(Some r, None)] (db\<lparr>reviews := reviews db @ [r]\<rparr>) = Inr db'"
    by (simp add: insert_review_unfold split: if_splits)
  then show ?thesis
    using InsertReview by (intro disjI1 exI conjI) (assumption, simp_all add: target_movie_id_def)
next
  case (UpdateReviews wh p)
  let ?olds = "filter (update_hit s wh) (reviews db)"
  let ?table = "map (\<lambda>r. if update_hit s wh r then apply_patch p r else r) (reviews db)"
  from assms UpdateReviews have
    "fire_triggers s (zip (map Some (map (apply_patch p) ?olds)) (map Some ?olds))
       (db\<lparr>reviews := ?table\<rparr>) = Inr db'"
    by (simp add: update_reviews_unfold Let_def split: if_splits)
  then show ?thesis
    using UpdateReviews
    by (intro disjI1 exI conjI) (assumption, simp_all add: targets_of_update_events comp_def)
next
  case (DeleteReviews wh)
  with assms have
    "fire_triggers s (map (\<lambda>r. (None, Some r)) (filter (delete_hit s wh) (reviews db)))
       (db\<lparr>reviews := filter (\<lambda>r. \<not> delete_hit s wh r) (reviews db)\<rparr>) = Inr db'"
    by (simp add: delete_reviews_unfold)
  then show ?thesis
    using DeleteReviews
    by (intro disjI1 exI conjI) (assumption, simp_all add: target_movie_id_def)
next
  case (InsertWatchlist w)
  with assms show ?thesis
    by (auto simp: insert_watchlist_def split: if_splits)
next
  case (DeleteWatchlist wh)
  with assms show ?thesis
    by (auto simp: delete_watchlist_def)
qed

lemma execute_frame:
  assumes ex: "execute s st db = Inr db'"
  shows "length (movies db') = length (movies db)"
    and "i < length (movies db) \<Longrightarrow> movies_id (movies db' ! i) = movies_id (movies db ! i)"
    and "i < length (movies db) \<Longrightarrow> movies_title (movies db' ! i) = movies_title (movies db ! i)"
    and "i < length (movies db) \<Longrightarrow> movies_id (movies db ! i) \<notin> set (trigger_targets s st db)
           \<Longrightarrow> movies db' ! i = movies db ! i"
proof -
  from execute_events [OF ex] consider
    (trig) evs mid where "fire_triggers s evs mid = Inr db'" "movies mid = movies db"
      "map (\<lambda>ev. target_movie_id (fst ev) (snd ev)) evs = map Some (trigger_targets s st db)"
    | (same) "movies db' = movies db"
    by blast
  then have "length (movies db') = length (movies db)
     \<and> (i < length (movies db) \<longrightarrow>
          movies_id (movies db' ! i) = movies_id (movies db ! i)
          \<and> movies_title (movies db' ! i) = movies_title (movies db ! i)
          \<and> (movies_id (movies db ! i) \<notin> set (trigger_targets s st db)
              \<longrightarrow> movies db' ! i = movies db ! i))"
  proof cases
    case trig
    have "length (movies db') = length (movies db)"
      using fire_triggers_tables [OF trig(1)] trig(2) by simp
    moreover have "i < length (movies db) \<Longrightarrow>
          movies_id (movies db' ! i) = movies_id (movies db ! i)
          \<and> movies_title (movies db' ! i) = movies_title (movies db ! i)
          \<and> (movies_id (movies db ! i) \<notin> set (trigger_targets s st db)
              \<longrightarrow> movies db' ! i = movies db ! i)"
      using fire_triggers_row [OF trig(1), of i] trig(2,3) by auto
    ultimately show ?thesis by blast
  next
    case same
    then show ?thesis by simp
  qed
  then show "length (movies db') = length (movies db)"
    and "i < length (movies db) \<Longrightarrow> movies_id (movies db' ! i) = movies_id (movies db ! i)"
    and "i < length (movies db) \<Longrightarrow> movies_title (movies db' ! i) = movies_title (movies db ! i)"
    and "i < length (movies db) \<Longrightarrow> movies_id (movies db ! i) \<notin> set (trigger_targets s st db)
           \<Longrightarrow> movies db' ! i = movies db ! i"
    by blast+
qed

section \<open>Frame of the recomputation\<close>

text \<open>
  Claim C8. A statement on \<^verbatim>\<open>reviews\<close> calls the rating function once per row it
  wrote, each call for the movie id \<^verbatim>\<open>COALESCE(NEW.movie_id, OLD.movie_id)\<close> of its row.
  When the statement succeeds, the \<^verbatim>\<open>movies\<close> table has the rows it had, and every row
  whose id is not one of these targets is the same row as before, with its
  \<^verbatim>\<open>average_rating\<close> and \<^verbatim>\<open>total_reviews\<close>.
\<close>

theorem recomputation_writes_only_target_movie:
  assumes "execute s st db = Inr db'"
  shows "length (movies db') = length (movies db)
         \<and> (\<forall>i<length (movies db).
               movies_id (movies db ! i) \<notin> set (trigger_targets s st db)
               \<longrightarrow> movies db' ! i = movies db ! i)"
  using execute_frame(1,4) [OF assms] by blast

theorem recomputation_writes_only_target_movie_witness:
  "execute privileged (InsertReview (rated 11 1 7 4)) seeded = Inr once_rated
   \<and> length (movies once_rated) = length (movies seeded)
   \<and> movies once_rated ! 1 = movies seeded ! 1
   \<and> movies once_rated ! 0 \<noteq> movies seeded ! 0"
proof -
  have run: "execute privileged (InsertReview (rated 11 1 7 4)) seeded = Inr once_rated"
    by code_simp
  have other: "(1::nat) < length (movies seeded)
      \<and> movies_id (movies seeded ! 1)
          \<notin> set (trigger_targets privileged (InsertReview (rated 11 1 7 4)) seeded)"
    by code_simp
  have changed: "movies once_rated ! 0 \<noteq> movies seeded ! 0"
    by code_simp
  from recomputation_writes_only_target_movie [OF run] other changed run
  show ?thesis by blast
qed

text \<open>
  Claim C10. An \<^verbatim>\<open>UPDATE\<close> that sets \<^verbatim>\<open>movie_id\<close> to B calls the rating function
  for B only, since \<^verbatim>\<open>COALESCE(NEW.movie_id, OLD.movie_id)\<close> is \<^verbatim>\<open>NEW.movie_id\<close>:
  every movie row with another id, the movie A that the review left among them, keeps
  its \<^verbatim>\<open>average_rating\<close> and \<^verbatim>\<open>total_reviews\<close>.
\<close>

theorem moved_review_recomputes_new_movie_only:
  assumes "set_movie_id p = Some B" and "execute s (UpdateReviews wh p) db = Inr db'"
  shows "(\<forall>r. target_movie_id (Some (apply_patch p r)) (Some r) = Some B)
         \<and> set (trigger_targets s (UpdateReviews wh p) db) \<subseteq> {B}
         \<and> length (movies db') = length (movies db)
         \<and> (\<forall>i<length (movies db).
               movies_id (movies db ! i) \<noteq> B \<longrightarrow> movies db' ! i = movies db ! i)"
proof -
  have "target_movie_id (Some (apply_patch p r)) (Some r) = Some B" for r
    using assms(1) by (simp add: target_movie_id_def apply_patch_def)
  moreover have "set (trigger_targets s (UpdateReviews wh p) db) \<subseteq> {B}"
    using assms(1) by (auto simp: apply_patch_def)
  ultimately show ?thesis
    using execute_frame(1,4) [OF assms(2)] by blast
qed

theorem moved_review_recomputes_new_movie_only_witness:
  "execute privileged (UpdateReviews (\<lambda>r. reviews_id r = 11) (move_to 8)) once_rated = Inr moved
   \<and> target_movie_id (Some (apply_patch (move_to 8) (rated 11 1 7 4))) (Some (rated 11 1 7 4))
       = Some 8
   \<and> movies moved ! 0 = movies once_rated ! 0
   \<and> reviews_of once_rated 7 = [rated 11 1 7 4]
   \<and> reviews_of moved 7 = []
   \<and> aggregate moved 7 = [(Some 4, Some 1)]"
proof -
  have p: "set_movie_id (move_to 8) = Some 8"
    by (simp add: move_to_def)
  have run: "execute privileged (UpdateReviews (\<lambda>r. reviews_id r = 11) (move_to 8)) once_rated
      = Inr moved"
    by code_simp
  have a: "(0::nat) < length (movies once_rated) \<and> movies_id (movies once_rated ! 0) \<noteq> 8"
    by code_simp
  have b: "reviews_of once_rated 7 = [rated 11 1 7 4] \<and> reviews_of moved 7 = []
      \<and> aggregate moved 7 = [(Some 4, Some 1)]"
    by code_simp
  from moved_review_recomputes_new_movie_only [OF p run] a b run
  show ?thesis by blast
qed

section \<open>Writes by someone else, and ratings out of range\<close>

lemma update_reviews_rows_no_hit:
  assumes "patch_fits p" and "\<not> list_ex (update_hit s wh) (reviews db)"
  shows "update_reviews_rows s wh p db = Inr ([], db)"
proof -
  from assms(2) have none: "\<forall>r\<in>set (reviews db). \<not> update_hit s wh r"
    by (simp add: list_ex_iff)
  then have olds: "filter (update_hit s wh) (reviews db) = []"
    by (simp add: filter_empty_conv)
  from none have table:
    "map (\<lambda>r. if update_hit s wh r then apply_patch p r else r) (reviews db) = reviews db"
    by (simp add: map_idI)
  show ?thesis
    using assms(1) by (simp add: update_reviews_rows_def olds table)
qed

lemma delete_reviews_rows_no_hit:
  assumes "\<not> list_ex (delete_hit s wh) (reviews db)"
  shows "delete_reviews_rows s wh db = Inr ([], db)"
proof -
  from assms have none: "\<forall>r\<in>set (reviews db). \<not> delete_hit s wh r"
    by (simp add: list_ex_iff)
  then have olds: "filter (delete_hit s wh) (reviews db) = []"
    by (simp add: filter_empty_conv)
  from none have rest: "filter (\<lambda>r. \<not> delete_hit s wh r) (reviews db) = reviews db"
    by simp
  show ?thesis
    by (simp add: delete_reviews_rows_def olds rest)
qed

lemma update_reviews_rows_unfit:
  "\<not> patch_fits p \<Longrightarrow> update_reviews_rows s wh p db = Inl numeric_value_out_of_range"
  by (simp add: update_reviews_rows_def)

lemma run_of_rows:
  "run s (UpdateReviews wh p) db =
     (case after_row_triggers s (update_reviews_rows s wh p db) of
        Inl e \<Rightarrow> (Some e, db) | Inr db' \<Rightarrow> (None, db'))"
  "run s (DeleteReviews wh) db =
     (case after_row_triggers s (delete_reviews_rows s wh db) of
        Inl e \<Rightarrow> (Some e, db) | Inr db' \<Rightarrow> (None, db'))"
  "run s (InsertReview r) db =
     (case after_row_triggers s (insert_review_rows s r db) of
        Inl e \<Rightarrow> (Some e, db) | Inr db' \<Rightarrow> (None, db'))"
  by (simp_all add: run_def update_reviews_def delete_reviews_def insert_review_def)

lemma non_owner_update_rows:
  assumes "\<not> bypass_rls s"
    and "\<forall>r\<in>set (reviews db). wh r \<longrightarrow> auth_uid s \<noteq> Some (reviews_user_id r)"
  shows "update_reviews_rows s wh p db
     = (if patch_fits p then Inr ([], db) else Inl numeric_value_out_of_range)"
proof -
  have "\<not> list_ex (update_hit s wh) (reviews db)"
    using assms
    by (auto simp: list_ex_iff update_hit_def rls_allows_def reviews_update_policies_def)
  then show ?thesis
    by (simp add: update_reviews_rows_no_hit update_reviews_rows_unfit)
qed

lemma patch_fits_set_rating: "patch_fits (p\<lparr>set_rating := Some k\<rparr>) = fits_integer k"
  by (simp add: patch_fits_def)

text \<open>
  Claim C5, as the code has it. A signed-in user who is not the owner of any review that
  the \<^verbatim>\<open>WHERE\<close> clause selects reaches no row with an \<^verbatim>\<open>UPDATE\<close> or a
  \<^verbatim>\<open>DELETE\<close>: the policies' \<^verbatim>\<open>USING (auth.uid() = user_id)\<close> hide the rows from the
  statement, which succeeds on zero rows. The delete reports no error. The update
  reports no error either, unless the rating it sets does not fit the 32-bit column:
  then it is aborted with \<open>numeric_value_out_of_range\<close>, as it would be for the owner.
  No refusal for want of ownership is reported in any case, no call of the rating
  function is queued, and the three tables, the aggregates among them, are what they
  were.
\<close>

theorem non_owner_write_reaches_no_row:
  assumes "\<not> bypass_rls s"
    and "\<forall>r\<in>set (reviews db). wh r \<longrightarrow> auth_uid s \<noteq> Some (reviews_user_id r)"
  shows "run s (UpdateReviews wh p) db
           = (if patch_fits p then None else Some numeric_value_out_of_range, db)
         \<and> run_rated s (UpdateRated wh p x) db
           = (if fits_integer (round_half_away x) then None
              else Some numeric_value_out_of_range, db)
         \<and> run s (DeleteReviews wh) db = (None, db)
         \<and> trigger_calls s (UpdateReviews wh p) db = []
         \<and> rated_trigger_calls s (UpdateRated wh p x) db = []
         \<and> trigger_calls s (DeleteReviews wh) db = []"
proof -
  note upd = non_owner_update_rows [OF assms]
  have "\<not> list_ex (delete_hit s wh) (reviews db)"
    using assms
    by (auto simp: list_ex_iff delete_hit_def rls_allows_def reviews_delete_policies_def)
  then have del: "delete_reviews_rows s wh db = Inr ([], db)"
    by (rule delete_reviews_rows_no_hit)
  have a: "run s (UpdateReviews wh p) db
           = (if patch_fits p then None else Some numeric_value_out_of_range, db)"
    by (simp add: run_of_rows upd after_row_triggers_def)
  have b: "run_rated s (UpdateRated wh p x) db
           = (if fits_integer (round_half_away x) then None
              else Some numeric_value_out_of_range, db)"
    by (simp add: run_rated_def execute_rated_def assign_integer_def update_reviews_def upd
        patch_fits_set_rating after_row_triggers_def)
  have c: "run s (DeleteReviews wh) db = (None, db)"
    by (simp add: run_of_rows del after_row_triggers_def)
  have d: "trigger_calls s (UpdateReviews wh p) db = []"
    by (simp add: upd queued_def)
  have e: "rated_trigger_calls s (UpdateRated wh p x) db = []"
    by (simp add: rated_trigger_calls_def assign_integer_def upd patch_fits_set_rating
        queued_def)
  have f: "trigger_calls s (DeleteReviews wh) db = []"
    by (simp add: del queued_def)
  from a b c d e f show ?thesis
    by blast
qed

theorem non_owner_write_reaches_no_row_witness:
  "run (client 2) (UpdateReviews (\<lambda>r. reviews_id r = 11) (set_rating_to 1)) once_rated
     = (None, once_rated)
   \<and> run (client 2) (UpdateReviews (\<lambda>r. reviews_id r = 11) (set_rating_to 2147483648))
       once_rated
     = (Some numeric_value_out_of_range, once_rated)
   \<and> run_rated (client 2) (UpdateRated (\<lambda>r. reviews_id r = 11) (set_rating_to 1) (9 / 2))
       once_rated
     = (None, once_rated)
   \<and> run (client 2) (DeleteReviews (\<lambda>r. reviews_id r = 11)) once_rated = (None, once_rated)
   \<and> trigger_calls (client 2) (DeleteReviews (\<lambda>r. reviews_id r = 11)) once_rated = []
   \<and> reviews once_rated = [rated 11 1 7 4]"
proof -
  have a: "\<not> bypass_rls (client 2)"
    by (simp add: client_def)
  have b: "\<forall>r\<in>set (reviews once_rated).
      reviews_id r = 11 \<longrightarrow> auth_uid (client 2) \<noteq> Some (reviews_user_id r)"
    by (simp add: once_rated_def rated_def client_def)
  have c: "reviews once_rated = [rated 11 1 7 4]"
    by (simp add: once_rated_def)
  have d: "patch_fits (set_rating_to 1) \<and> \<not> patch_fits (set_rating_to 2147483648)
      \<and> fits_integer (round_half_away (9 / 2))"
    by code_simp
  from non_owner_write_reaches_no_row [OF a b, of "set_rating_to 1" "9 / 2"]
    non_owner_write_reaches_no_row [OF a b, of "set_rating_to 2147483648" "9 / 2"] c d
  show ?thesis by simp
qed

text \<open>
  Claim C5 as the spec states it asks for a failure (\<^verbatim>\<open>Forbidden\<close>). User 2 deleting or
  updating the review of user 1 gets no error from the statement, and
  \<^verbatim>\<open>handleDeleteReview\<close> shows its usual toast.
\<close>

theorem non_owner_delete_is_not_refused:
  "fst (run (client 2) (DeleteReviews (\<lambda>r. reviews_id r = 11)) once_rated) = None
   \<and> fst (run (client 2) (UpdateReviews (\<lambda>r. reviews_id r = 11) (set_rating_to 1)) once_rated)
       = None
   \<and> handleDeleteReview (Some 2) 11 True once_rated = (Some ''Review deleted'', once_rated)"
  by code_simp








section \<open>One review per user and movie\<close>

lemma two_hits_in_filter:
  assumes "i < j" and "j < length xs" and "P (xs ! i)" and "P (xs ! j)"
  shows "1 < length (filter P xs)"
proof -
  have split: "xs = take j xs @ xs ! j # drop (Suc j) xs"
    using assms(2) by (simp add: id_take_nth_drop)
  have "xs ! i \<in> set (take j xs)"
    using assms(1,2) by (auto simp: in_set_conv_nth intro!: exI [of _ i])
  with assms(3) have "filter P (take j xs) \<noteq> []"
    by (auto simp: filter_empty_conv)
  then have "0 < length (filter P (take j xs))"
    by simp
  moreover have "length (filter P xs)
      = length (filter P (take j xs)) + length (filter P (xs ! j # drop (Suc j) xs))"
    by (subst split) simp
  ultimately show ?thesis
    using assms(4) by simp
qed

lemma update_keeps_pairs_distinct:
  assumes dist: "distinct (map pair_of rs)"
    and ok: "\<not> list_ex (\<lambda>r. 1 < length (filter (same_pair r) (map f rs))) (map g (filter hit rs))"
    and f: "\<And>r. f r = (if hit r then g r else r)"
  shows "distinct (map pair_of (map f rs))"
proof -
  have once: "\<not> 1 < length (filter (same_pair (g r)) (map f rs))"
    if "r \<in> set rs" "hit r" for r
    using ok that by (auto simp: list_ex_iff)
  have "pair_of (f (rs ! i)) \<noteq> pair_of (f (rs ! j))" if ij: "i < j" "j < length rs" for i j
  proof
    assume eq: "pair_of (f (rs ! i)) = pair_of (f (rs ! j))"
    have i: "i < length rs"
      using ij by simp
    have both: "1 < length (filter (same_pair x) (map f rs))"
      if x: "pair_of x = pair_of (f (rs ! i))" for x
    proof -
      have "same_pair x (map f rs ! i)"
        using x i by (simp add: same_pair_def pair_of_def)
      moreover have "same_pair x (map f rs ! j)"
        using x eq ij(2) by (simp add: same_pair_def pair_of_def)
      ultimately show ?thesis
        using two_hits_in_filter [of i j "map f rs" "same_pair x"] ij by simp
    qed
    show False
    proof (cases "hit (rs ! i)")
      case True
      then have "f (rs ! i) = g (rs ! i)"
        by (simp add: f)
      then have "1 < length (filter (same_pair (g (rs ! i))) (map f rs))"
        using both [of "g (rs ! i)"] by simp
      with once [of "rs ! i"] True i show False
        by simp
    next
      case False
      then have fi: "f (rs ! i) = rs ! i"
        by (simp add: f)
      show False
      proof (cases "hit (rs ! j)")
        case True
        then have "f (rs ! j) = g (rs ! j)"
          by (simp add: f)
        then have "1 < length (filter (same_pair (g (rs ! j))) (map f rs))"
          using both [of "g (rs ! j)"] eq by simp
        with once [of "rs ! j"] True ij(2) show False
          by simp
      next
        case no: False
        then have "f (rs ! j) = rs ! j"
          by (simp add: f)
        with fi eq have "pair_of (rs ! i) = pair_of (rs ! j)"
          by simp
        moreover have "map pair_of rs ! i \<noteq> map pair_of rs ! j"
          using dist ij i by (simp only: distinct_conv_nth length_map) auto
        ultimately show False
          using ij i by simp
      qed
    qed
  qed
  then have "\<forall>i<length rs. \<forall>j<length rs. i \<noteq> j \<longrightarrow>
      pair_of (f (rs ! i)) \<noteq> pair_of (f (rs ! j))"
    by (metis nat_neq_iff)
  then show ?thesis
    by (simp add: distinct_conv_nth)
qed

lemma execute_reviews_unique:
  assumes inv: "reviews_unique db" and ex: "execute s st db = Inr db'"
  shows "reviews_unique db'"
proof (cases st)
  case (InsertReview r)
  with ex have fresh: "\<not> list_ex (same_pair r) (reviews db)"
    and trig: "fire_triggers s [(Some r, None)] (db\<lparr>reviews := reviews db @ [r]\<rparr>) = Inr db'"
    by (auto simp: insert_review_unfold split: if_splits)
  from fire_triggers_tables [OF trig] have "reviews db' = reviews db @ [r]"
    by simp
  with inv fresh show ?thesis
    by (auto simp: reviews_unique_def list_ex_iff same_pair_def pair_of_def)
next
  case (UpdateReviews wh p)
  let ?f = "\<lambda>r. if update_hit s wh r then apply_patch p r else r"
  from ex UpdateReviews have
    ok: "\<not> list_ex (\<lambda>r. 1 < length (filter (same_pair r) (map ?f (reviews db))))
            (map (apply_patch p) (filter (update_hit s wh) (reviews db)))"
    and trig: "fire_triggers s
       (zip (map Some (map (apply_patch p) (filter (update_hit s wh) (reviews db))))
            (map Some (filter (update_hit s wh) (reviews db))))
       (db\<lparr>reviews := map ?f (reviews db)\<rparr>) = Inr db'"
    by (auto simp: update_reviews_unfold Let_def split: if_splits)
  from fire_triggers_tables [OF trig] have tab: "reviews db' = map ?f (reviews db)"
    by simp
  have "distinct (map pair_of (map ?f (reviews db)))"
    using inv ok
    by (intro update_keeps_pairs_distinct [where hit = "update_hit s wh" and g = "apply_patch p"])
       (simp_all add: reviews_unique_def)
  then show ?thesis
    by (simp add: reviews_unique_def tab)
next
  case (DeleteReviews wh)
  with ex have trig:
    "fire_triggers s (map (\<lambda>r. (None, Some r)) (filter (delete_hit s wh) (reviews db)))
       (db\<lparr>reviews := filter (\<lambda>r. \<not> delete_hit s wh r) (reviews db)\<rparr>) = Inr db'"
    by (simp add: delete_reviews_unfold)
  from fire_triggers_tables [OF trig]
  have "reviews db' = filter (\<lambda>r. \<not> delete_hit s wh r) (reviews db)"
    by simp
  with inv show ?thesis
    by (simp add: reviews_unique_def distinct_map_filter)
next
  case (InsertWatchlist w)
  with ex inv show ?thesis
    by (auto simp: insert_watchlist_def reviews_unique_def split: if_splits)
next
  case (DeleteWatchlist wh)
  with ex inv show ?thesis
    by (auto simp: delete_watchlist_def reviews_unique_def)
qed

lemma run_reviews_unique:
  "reviews_unique db \<Longrightarrow> reviews_unique (snd (run s st db))"
  by (auto simp: run_def execute_reviews_unique split: sum.splits)

lemma run_all_reviews_unique:
  "reviews_unique db \<Longrightarrow> reviews_unique (run_all sts db)"
proof (induction sts arbitrary: db)
  case Nil
  then show ?case by simp
next
  case (Cons x sts)
  obtain s st where "x = (s, st)" by (cases x)
  with Cons show ?case
    by (simp add: run_reviews_unique)
qed

lemma unique_at_most_one:
  assumes "distinct (map k xs)"
  shows "length (filter (\<lambda>x. k x = v) xs) \<le> 1"
  using assms
proof (induction xs)
  case Nil
  then show ?case by simp
next
  case (Cons x xs)
  show ?case
  proof (cases "k x = v")
    case True
    with Cons.prems have "\<forall>y\<in>set xs. k y \<noteq> v"
      by (metis distinct.simps(2) imageI list.simps(9) set_map)
    then have "filter (\<lambda>x. k x = v) xs = []"
      by (simp add: filter_empty_conv)
    with True show ?thesis by simp
  next
    case False
    with Cons show ?thesis by simp
  qed
qed

lemma insert_review_duplicate:
  assumes "rls_allows s reviews_insert_policies r" and "rating_check r"
    and "list_ex (same_pair r) (reviews db)"
  shows "run s (InsertReview r) db = (Some unique_violation, db)"
  using assms by (simp add: run_def insert_review_unfold rating_check_def fits_integer_def)


lemma handleSubmit_duplicate:
  assumes "1 \<le> k" and "k \<le> 5"
    and "list_ex (\<lambda>r. reviews_user_id r = u \<and> reviews_movie_id r = m) (reviews db)"
  shows "handleSubmit (Some u) m k t i db = (Some ''Error'', db)"
proof -
  let ?r = "\<lparr>reviews_id = i, reviews_user_id = u, reviews_movie_id = m, reviews_rating = k,
             reviews_review_text = t\<rparr>"
  have "run (client u) (InsertReview ?r) db = (Some unique_violation, db)"
    using assms
    by (intro insert_review_duplicate)
       (simp_all add: rls_allows_def reviews_insert_policies_def client_def rating_check_def
          same_pair_def [abs_def])
  with assms(1) show ?thesis
    by (simp add: handleSubmit_def)
qed

text \<open>
  Claim C4. \<^verbatim>\<open>UNIQUE(user_id, movie_id)\<close> on \<^verbatim>\<open>reviews\<close>: from tables with at most
  one review per user and movie, every sequence of statements, in whatever sessions,
  leads to tables with at most one. An insert for a pair that has a review, by a session
  that may insert the row and with a rating in 1..5 (as \<^verbatim>\<open>submitReview\<close> takes it), is
  aborted with \<open>unique_violation\<close>, the spec's \<^verbatim>\<open>DuplicateEntry\<close>, and the tables with
  the aggregates stay as the first submission left them; \<^verbatim>\<open>handleSubmit\<close> shows its
  error toast.
\<close>

theorem one_review_per_user_and_movie:
  assumes "reviews_unique db"
  shows "reviews_unique (run_all sts db)
    \<and> (\<forall>u m. length (filter (\<lambda>r. reviews_user_id r = u \<and> reviews_movie_id r = m)
                        (reviews (run_all sts db))) \<le> 1)
    \<and> (\<forall>s r. rls_allows s reviews_insert_policies r \<and> rating_check r
               \<and> list_ex (same_pair r) (reviews db)
             \<longrightarrow> run s (InsertReview r) db = (Some unique_violation, db))
    \<and> (\<forall>u m k t i. 1 \<le> k \<and> k \<le> 5
               \<and> list_ex (\<lambda>r. reviews_user_id r = u \<and> reviews_movie_id r = m) (reviews db)
             \<longrightarrow> handleSubmit (Some u) m k t i db = (Some ''Error'', db))"
proof -
  have u: "reviews_unique (run_all sts db)"
    using assms by (rule run_all_reviews_unique)
  have "length (filter (\<lambda>r. reviews_user_id r = u \<and> reviews_movie_id r = m)
                        (reviews (run_all sts db))) \<le> 1" for u m
    using unique_at_most_one [of pair_of "reviews (run_all sts db)" "(u, m)"] u
    by (simp add: reviews_unique_def pair_of_def)
  with u insert_review_duplicate handleSubmit_duplicate show ?thesis
    by blast
qed

theorem one_review_per_user_and_movie_witness:
  "reviews_unique seeded
   \<and> reviews (run_all (take 2 (scenario_A client)) seeded) = [rated 11 1 7 4, rated 12 2 7 5]
   \<and> reviews_unique (run_all (take 2 (scenario_A client)) seeded)
   \<and> run (client 1) (InsertReview (rated 13 1 7 3)) once_rated
       = (Some unique_violation, once_rated)
   \<and> handleSubmit (Some 1) 7 3 None 13 once_rated = (Some ''Error'', once_rated)"
proof -
  have a: "reviews_unique seeded"
    by code_simp
  have b: "reviews (run_all (take 2 (scenario_A client)) seeded)
      = [rated 11 1 7 4, rated 12 2 7 5]"
    by code_simp
  have c: "reviews_unique once_rated"
    by code_simp
  have d: "rls_allows (client 1) reviews_insert_policies (rated 13 1 7 3)
      \<and> rating_check (rated 13 1 7 3)
      \<and> list_ex (same_pair (rated 13 1 7 3)) (reviews once_rated)"
    by code_simp
  have e: "(1::int) \<le> 3 \<and> (3::int) \<le> 5
      \<and> list_ex (\<lambda>r. reviews_user_id r = 1 \<and> reviews_movie_id r = 7) (reviews once_rated)"
    by code_simp
  from one_review_per_user_and_movie [OF a, of "take 2 (scenario_A client)"]
    one_review_per_user_and_movie [OF c, of "[]"] a b d e
  show ?thesis by blast
qed


section \<open>The watchlist\<close>

lemma execute_watchlist_unique:
  assumes inv: "watchlist_unique db" and ex: "execute s st db = Inr db'"
  shows "watchlist_unique db'"
proof (cases st)
  case (InsertWatchlist w)
  with ex have "\<not> list_ex (same_entry w) (watchlist db)"
    and "db' = db\<lparr>watchlist := watchlist db @ [w]\<rparr>"
    by (auto simp: insert_watchlist_def split: if_splits)
  with inv show ?thesis
    by (auto simp: watchlist_unique_def list_ex_iff same_entry_def entry_of_def)
next
  case (DeleteWatchlist wh)
  with ex inv show ?thesis
    by (auto simp: delete_watchlist_def watchlist_unique_def distinct_map_filter)
next
  case (InsertReview r)
  with ex have "fire_triggers s [(Some r, None)] (db\<lparr>reviews := reviews db @ [r]\<rparr>) = Inr db'"
    by (auto simp: insert_review_unfold split: if_splits)
  from fire_triggers_tables [OF this] inv show ?thesis
    by (simp add: watchlist_unique_def)
next
  case (UpdateReviews wh p)
  with ex obtain evs tab where "fire_triggers s evs (db\<lparr>reviews := tab\<rparr>) = Inr db'"
    by (auto simp: update_reviews_unfold Let_def split: if_splits)
  from fire_triggers_tables [OF this] inv show ?thesis
    by (simp add: watchlist_unique_def)
next
  case (DeleteReviews wh)
  with ex obtain evs tab where "fire_triggers s evs (db\<lparr>reviews := tab\<rparr>) = Inr db'"
    by (auto simp: delete_reviews_unfold)
  from fire_triggers_tables [OF this] inv show ?thesis
    by (simp add: watchlist_unique_def)
qed

lemma run_watchlist_unique:
  "watchlist_unique db \<Longrightarrow> watchlist_unique (snd (run s st db))"
  by (auto simp: run_def execute_watchlist_unique split: sum.splits)

lemma run_all_watchlist_unique:
  "watchlist_unique db \<Longrightarrow> watchlist_unique (run_all sts db)"
proof (induction sts arbitrary: db)
  case Nil
  then show ?case by simp
next
  case (Cons x sts)
  obtain s st where "x = (s, st)" by (cases x)
  with Cons show ?case
    by (simp add: run_watchlist_unique)
qed

lemma insert_watchlist_duplicate:
  assumes "list_ex (same_entry w) (watchlist db)"
  shows "run s (InsertWatchlist w) db
     = (Some (if rls_allows s watchlist_insert_policies w then unique_violation
              else insufficient_privilege), db)"
  using assms by (simp add: run_def insert_watchlist_def)

lemma watchlist_statement_frame:
  "reviews (snd (run s (InsertWatchlist w) db)) = reviews db
   \<and> movies (snd (run s (InsertWatchlist w) db)) = movies db
   \<and> reviews (snd (run s (DeleteWatchlist wh) db)) = reviews db
   \<and> movies (snd (run s (DeleteWatchlist wh) db)) = movies db"
  by (simp add: run_def insert_watchlist_def delete_watchlist_def)

lemma handleWatchlistToggle_frame:
  "reviews (snd (snd (handleWatchlistToggle user m flag i db))) = reviews db
   \<and> movies (snd (snd (handleWatchlistToggle user m flag i db))) = movies db"
  using watchlist_statement_frame
  by (cases user) (simp_all add: handleWatchlistToggle_def)

lemma handleWatchlistToggle_unique:
  "watchlist_unique db \<Longrightarrow> watchlist_unique (snd (snd (handleWatchlistToggle user m flag i db)))"
  by (cases user) (simp_all add: handleWatchlistToggle_def run_watchlist_unique)

text \<open>
  Claim C9. \<^verbatim>\<open>UNIQUE(user_id, movie_id)\<close> on \<^verbatim>\<open>watchlist\<close>: from tables with at
  most one entry per user and movie every sequence of statements leads to tables with at
  most one. Adding a pair that is there is aborted, with \<open>unique_violation\<close> when the
  session may insert the row, and adds nothing. No statement on the watchlist, and no
  \<^verbatim>\<open>handleWatchlistToggle\<close>, changes a row of \<^verbatim>\<open>reviews\<close> or of \<^verbatim>\<open>movies\<close>.
\<close>

theorem one_watchlist_entry_per_user_and_movie:
  assumes "watchlist_unique db"
  shows "watchlist_unique (run_all sts db)
    \<and> (\<forall>u m. length (filter (\<lambda>w. watchlist_user_id w = u \<and> watchlist_movie_id w = m)
                        (watchlist (run_all sts db))) \<le> 1)
    \<and> (\<forall>s w. list_ex (same_entry w) (watchlist db)
             \<longrightarrow> run s (InsertWatchlist w) db
                   = (Some (if rls_allows s watchlist_insert_policies w then unique_violation
                            else insufficient_privilege), db))
    \<and> (\<forall>s w wh. reviews (snd (run s (InsertWatchlist w) db)) = reviews db
             \<and> movies (snd (run s (InsertWatchlist w) db)) = movies db
             \<and> reviews (snd (run s (DeleteWatchlist wh) db)) = reviews db
             \<and> movies (snd (run s (DeleteWatchlist wh) db)) = movies db)
    \<and> (\<forall>user m flag i.
          watchlist_unique (snd (snd (handleWatchlistToggle user m flag i db)))
          \<and> reviews (snd (snd (handleWatchlistToggle user m flag i db))) = reviews db
          \<and> movies (snd (snd (handleWatchlistToggle user m flag i db))) = movies db)"
proof -
  have u: "watchlist_unique (run_all sts db)"
    using assms by (rule run_all_watchlist_unique)
  have "length (filter (\<lambda>w. watchlist_user_id w = u \<and> watchlist_movie_id w = m)
                        (watchlist (run_all sts db))) \<le> 1" for u m
    using unique_at_most_one [of entry_of "watchlist (run_all sts db)" "(u, m)"] u
    by (simp add: watchlist_unique_def entry_of_def)
  moreover note u insert_watchlist_duplicate watchlist_statement_frame
    handleWatchlistToggle_frame handleWatchlistToggle_unique [OF assms]
  ultimately show ?thesis
    by blast
qed


theorem one_watchlist_entry_per_user_and_movie_witness:
  "watchlist_unique seeded
   \<and> watchlist (run_all [(client 1, InsertWatchlist (listed 21 1 7)),
                          (client 1, InsertWatchlist (listed 22 1 7))] seeded)
       = [listed 21 1 7]
   \<and> watchlist_unique (run_all [(client 1, InsertWatchlist (listed 21 1 7)),
                          (client 1, InsertWatchlist (listed 22 1 7))] seeded)
   \<and> run (client 1) (InsertWatchlist (listed 22 1 7)) watched
       = (Some unique_violation, watched)"
proof -
  have a: "watchlist_unique seeded"
    by code_simp
  have b: "watchlist (run_all [(client 1, InsertWatchlist (listed 21 1 7)),
                          (client 1, InsertWatchlist (listed 22 1 7))] seeded)
       = [listed 21 1 7]"
    by code_simp
  have c: "watchlist_unique watched"
    by code_simp
  have d: "list_ex (same_entry (listed 22 1 7)) (watchlist watched)
      \<and> rls_allows (client 1) watchlist_insert_policies (listed 22 1 7)"
    by code_simp
  from one_watchlist_entry_per_user_and_movie [OF a,
      of "[(client 1, InsertWatchlist (listed 21 1 7)),
           (client 1, InsertWatchlist (listed 22 1 7))]"]
    one_watchlist_entry_per_user_and_movie [OF c, of "[]"] a b d
  show ?thesis by simp
qed

section \<open>The aggregate and the reviews\<close>

text \<open>
  What the rating function achieves in a session that row security does not apply to:
  a statement that leaves every review with its movie takes tables whose aggregates
  agree with the reviews to tables whose aggregates agree with the reviews.
\<close>

lemma round_half_away_zero: "round_half_away 0 = 0"
proof -
  have "\<lfloor>1 / 2 :: rat\<rfloor> = 0"
    by (rule floor_unique) simp_all
  then show ?thesis
    by (simp add: round_half_away_def)
qed

lemma to_decimal_3_2_value:
  "to_decimal_3_2 x = Inr a \<Longrightarrow> a = of_int (round_half_away (x * 100)) / 100"
  by (auto simp: to_decimal_3_2_def Let_def split: if_splits)

lemma to_integer_value: "to_integer n = Inr k \<Longrightarrow> k = n"
  by (auto simp: to_integer_def split: if_splits)

lemma movie_consistent_reviews_of:
  "reviews_of db' (movies_id m) = reviews_of db (movies_id m)
   \<Longrightarrow> movie_consistent db' m = movie_consistent db m"
  by (simp add: movie_consistent_def spec_total_reviews_def spec_average_rating_def)

lemma update_movie_rating_recomputes:
  assumes bp: "bypass_rls s" and run: "update_movie_rating s NEW OLD db = Inr db'"
    and i: "i < length (movies db)"
    and tg: "Some (movies_id (movies db ! i)) = target_movie_id NEW OLD"
  shows "movie_consistent db' (movies db' ! i)"
proof -
  let ?t = "movies_id (movies db ! i)"
  let ?rows = "filter (\<lambda>r. Some (reviews_movie_id r) = target_movie_id NEW OLD) (reviews db)"
  let ?x = "case coalesce (avg_rating ?rows) (Some 0) of Some a \<Rightarrow> a | None \<Rightarrow> 0"
  have rows: "?rows = reviews_of db ?t"
    using tg [symmetric] by (simp add: reviews_of_def)
  have reached: "list_ex (\<lambda>m. Some (movies_id m) = target_movie_id NEW OLD
                    \<and> rls_allows s movies_update_policies m) (movies db)"
    using i tg by (auto simp: list_ex_iff rls_allows_def bp intro!: bexI [of _ "movies db ! i"])
  from run reached obtain a n where
    a: "to_decimal_3_2 ?x = Inr a" and n: "to_integer (int (length ?rows)) = Inr n"
    and db': "db' = db\<lparr>movies :=
       map (\<lambda>m. if Some (movies_id m) = target_movie_id NEW OLD
                    \<and> rls_allows s movies_update_policies m
                 then m\<lparr>movies_average_rating := Some a, movies_total_reviews := Some n\<rparr>
                 else m) (movies db)\<rparr>"
    by (auto simp: update_movie_rating_def Let_def split: sum.splits)
  have row: "movies db' ! i
      = (movies db ! i)\<lparr>movies_average_rating := Some a, movies_total_reviews := Some n\<rparr>"
    using i tg by (simp add: db' rls_allows_def bp)
  have rev: "reviews_of db' ?t = reviews_of db ?t"
    by (simp add: db' reviews_of_def)
  have total: "n = spec_total_reviews db ?t"
    using to_integer_value [OF n] rows by (simp add: spec_total_reviews_def)
  have x: "?x = (if reviews_of db ?t = [] then 0
                 else of_int (sum_list (map reviews_rating (reviews_of db ?t)))
                        / of_nat (length (reviews_of db ?t)))"
    by (simp add: rows avg_rating_def)
  have avg: "a = spec_average_rating db ?t"
  proof (cases "reviews_of db ?t = []")
    case True
    with x have "?x = 0"
      by simp
    with to_decimal_3_2_value [OF a] True show ?thesis
      by (simp add: spec_average_rating_def round_half_away_zero)
  next
    case False
    with x have "?x = of_int (sum_list (map reviews_rating (reviews_of db ?t)))
                        / of_nat (length (reviews_of db ?t))"
      by simp
    with to_decimal_3_2_value [OF a] False show ?thesis
      by (simp add: spec_average_rating_def)
  qed
  show ?thesis
    using total avg rev
    by (simp add: movie_consistent_def row spec_total_reviews_def spec_average_rating_def)
qed

lemma fire_triggers_recomputes:
  "bypass_rls s \<Longrightarrow> fire_triggers s evs db = Inr db' \<Longrightarrow> i < length (movies db) \<Longrightarrow>
   Some (movies_id (movies db ! i)) \<in> set (map (\<lambda>ev. target_movie_id (fst ev) (snd ev)) evs)
   \<Longrightarrow> movie_consistent db' (movies db' ! i)"
proof (induction evs arbitrary: db)
  case Nil
  then show ?case by simp
next
  case (Cons ev evs)
  obtain NEW OLD where ev: "ev = (NEW, OLD)" by (cases ev)
  from Cons.prems(2) ev obtain db1 where
    s1: "update_movie_rating s NEW OLD db = Inr db1" and s2: "fire_triggers s evs db1 = Inr db'"
    by (auto split: sum.splits)
  have len: "i < length (movies db1)"
    using update_movie_rating_tables [OF s1] Cons.prems(3) by simp
  have same_id: "movies_id (movies db1 ! i) = movies_id (movies db ! i)"
    using update_movie_rating_row [OF s1 Cons.prems(3)] by simp
  show ?case
  proof (cases "Some (movies_id (movies db ! i))
      \<in> set (map (\<lambda>ev. target_movie_id (fst ev) (snd ev)) evs)")
    case True
    with Cons.IH [OF Cons.prems(1) s2 len] same_id show ?thesis
      by simp
  next
    case False
    with Cons.prems(4) ev have tg: "Some (movies_id (movies db ! i)) = target_movie_id NEW OLD"
      by simp
    have c1: "movie_consistent db1 (movies db1 ! i)"
      using update_movie_rating_recomputes [OF Cons.prems(1) s1 Cons.prems(3) tg] .
    have keep: "movies db' ! i = movies db1 ! i"
      using fire_triggers_row [OF s2 len] False same_id by simp
    have "reviews db' = reviews db1"
      using fire_triggers_tables [OF s2] by simp
    then have "reviews_of db' (movies_id (movies db1 ! i))
        = reviews_of db1 (movies_id (movies db1 ! i))"
      by (simp add: reviews_of_def)
    from movie_consistent_reviews_of [OF this] c1 keep show ?thesis
      by simp
  qed
qed

lemma filter_map_untouched:
  assumes "\<And>r. r \<in> set rs \<Longrightarrow> hit r \<Longrightarrow> \<not> P r \<and> \<not> P (g r)"
  shows "filter P (map (\<lambda>r. if hit r then g r else r) rs) = filter P rs"
  using assms by (induction rs) auto

lemma filter_filter_untouched:
  assumes "\<And>r. r \<in> set rs \<Longrightarrow> hit r \<Longrightarrow> \<not> P r"
  shows "filter P (filter (\<lambda>r. \<not> hit r) rs) = filter P rs"
  using assms by (induction rs) auto

lemma execute_other_reviews:
  assumes km: "keeps_movie st" and ex: "execute s st db = Inr db'"
    and t: "t \<notin> set (trigger_targets s st db)"
  shows "reviews_of db' t = reviews_of db t"
proof (cases st)
  case (InsertReview r)
  with ex have "fire_triggers s [(Some r, None)] (db\<lparr>reviews := reviews db @ [r]\<rparr>) = Inr db'"
    by (auto simp: insert_review_unfold split: if_splits)
  from fire_triggers_tables [OF this] t InsertReview show ?thesis
    by (simp add: reviews_of_def)
next
  case (UpdateReviews wh p)
  let ?f = "\<lambda>r. if update_hit s wh r then apply_patch p r else r"
  from ex UpdateReviews obtain evs where
    "fire_triggers s evs (db\<lparr>reviews := map ?f (reviews db)\<rparr>) = Inr db'"
    by (auto simp: update_reviews_unfold Let_def split: if_splits)
  from fire_triggers_tables [OF this] have tab: "reviews db' = map ?f (reviews db)"
    by simp
  from km UpdateReviews have same: "reviews_movie_id (apply_patch p r) = reviews_movie_id r" for r
    by (simp add: apply_patch_def)
  have "filter (\<lambda>r. reviews_movie_id r = t) (map ?f (reviews db))
      = filter (\<lambda>r. reviews_movie_id r = t) (reviews db)"
  proof (rule filter_map_untouched)
    fix r assume "r \<in> set (reviews db)" "update_hit s wh r"
    with t UpdateReviews have "reviews_movie_id (apply_patch p r) \<noteq> t"
      by auto
    with same show "\<not> reviews_movie_id r = t \<and> \<not> reviews_movie_id (apply_patch p r) = t"
      by simp
  qed
  with tab show ?thesis
    by (simp add: reviews_of_def)
next
  case (DeleteReviews wh)
  with ex have "fire_triggers s (map (\<lambda>r. (None, Some r)) (filter (delete_hit s wh) (reviews db)))
       (db\<lparr>reviews := filter (\<lambda>r. \<not> delete_hit s wh r) (reviews db)\<rparr>) = Inr db'"
    by (simp add: delete_reviews_unfold)
  from fire_triggers_tables [OF this]
  have tab: "reviews db' = filter (\<lambda>r. \<not> delete_hit s wh r) (reviews db)"
    by simp
  have "filter (\<lambda>r. reviews_movie_id r = t) (filter (\<lambda>r. \<not> delete_hit s wh r) (reviews db))
      = filter (\<lambda>r. reviews_movie_id r = t) (reviews db)"
  proof (rule filter_filter_untouched)
    fix r assume "r \<in> set (reviews db)" "delete_hit s wh r"
    with t DeleteReviews show "\<not> reviews_movie_id r = t"
      by auto
  qed
  with tab show ?thesis
    by (simp add: reviews_of_def)
next
  case (InsertWatchlist w)
  with ex show ?thesis
    by (auto simp: insert_watchlist_def reviews_of_def split: if_splits)
next
  case (DeleteWatchlist wh)
  with ex show ?thesis
    by (auto simp: delete_watchlist_def reviews_of_def)
qed

lemma privileged_statement_keeps_aggregates:
  assumes bp: "bypass_rls s" and km: "keeps_movie st"
    and inv: "aggregates_consistent db" and ex: "execute s st db = Inr db'"
  shows "aggregates_consistent db'"
proof -
  have "movie_consistent db' (movies db' ! i)" if i: "i < length (movies db)" for i
  proof (cases "movies_id (movies db ! i) \<in> set (trigger_targets s st db)")
    case True
    from execute_events [OF ex] True obtain evs mid where
      trig: "fire_triggers s evs mid = Inr db'" and mv: "movies mid = movies db"
      and tg: "map (\<lambda>ev. target_movie_id (fst ev) (snd ev)) evs
                = map Some (trigger_targets s st db)"
      by (cases "trigger_targets s st db = []") auto
    from True tg have "Some (movies_id (movies mid ! i))
        \<in> set (map (\<lambda>ev. target_movie_id (fst ev) (snd ev)) evs)"
      by (simp add: mv)
    with fire_triggers_recomputes [OF bp trig, of i] i mv show ?thesis
      by simp
  next
    case False
    have keep: "movies db' ! i = movies db ! i"
      using execute_frame(4) [OF ex i False] .
    have "movie_consistent db (movies db ! i)"
      using inv i by (simp add: aggregates_consistent_def list_all_length)
    moreover have "reviews_of db' (movies_id (movies db ! i))
        = reviews_of db (movies_id (movies db ! i))"
      using execute_other_reviews [OF km ex False] .
    ultimately show ?thesis
      using movie_consistent_reviews_of [of db' "movies db ! i" db] keep by simp
  qed
  then show ?thesis
    using execute_frame(1) [OF ex] by (simp add: aggregates_consistent_def list_all_length)
qed


text \<open>
  In the session of a signed-in user the \<^verbatim>\<open>UPDATE public.movies\<close> of the rating function
  reaches no row, whatever the statement: \<^verbatim>\<open>movies\<close> has row security enabled and no
  policy for UPDATE, and the function runs with the rights of its caller.
\<close>

lemma client_statement_never_writes_movies:
  assumes "\<not> bypass_rls s" and "execute s st db = Inr db'"
  shows "movies db' = movies db"
  using assms
  by (cases st)
     (auto simp: insert_review_unfold update_reviews_unfold delete_reviews_unfold insert_watchlist_def
        delete_watchlist_def fire_triggers_client update_movie_rating_client Let_def
        split: if_splits)

text \<open>
  Claim C1. The failing inputs. User 1 submits the rating 4 for X through
  \<^verbatim>\<open>ReviewForm.handleSubmit\<close> on the seeded tables, where the aggregates agree with the
  reviews: the review is stored, and X keeps \<^verbatim>\<open>average_rating = 0.00\<close> and
  \<^verbatim>\<open>total_reviews = 0\<close> with one review. And where a privileged session moves the only
  review of X to Y, X keeps \<^verbatim>\<open>4.00\<close> and \<^verbatim>\<open>1\<close> with no review. In both cases the
  aggregates do not agree with the reviews afterward.
\<close>

theorem client_insert_leaves_aggregate_stale:
  "aggregates_consistent seeded
   \<and> handleSubmit (Some 1) 7 4 None 11 seeded = (Some ''Review submitted'', submitted)
   \<and> reviews_of submitted 7 = [rated 11 1 7 4]
   \<and> aggregate submitted 7 = [(Some 0, Some 0)]
   \<and> \<not> aggregates_consistent submitted
   \<and> aggregates_consistent once_rated
   \<and> run privileged (UpdateReviews (\<lambda>r. reviews_id r = 11) (move_to 8)) once_rated
       = (None, moved)
   \<and> reviews_of moved 7 = []
   \<and> aggregate moved 7 = [(Some 4, Some 1)]
   \<and> \<not> aggregates_consistent moved"
  by code_simp

text \<open>
  Claim C2. Scenario A with every statement in the session of its user, as the front end
  issues them: the five statements succeed and the aggregate of X is
  \<^verbatim>\<open>(0.00, 0)\<close> after each of them.
\<close>

theorem scenario_A_as_clients:
  "aggregates_along (scenario_A client) 7 seeded =
     [(None, [(Some 0, Some 0)]), (None, [(Some 0, Some 0)]), (None, [(Some 0, Some 0)]),
      (None, [(Some 0, Some 0)]), (None, [(Some 0, Some 0)])]"
  by code_simp

text \<open>
  The same five statements in a session that row security does not apply to give the
  aggregates of the spec: (4.00, 1), (4.50, 2), (3.50, 2), (2.00, 1), (0.00, 0).
\<close>

lemma scenario_A_privileged:
  "aggregates_along (scenario_A (\<lambda>u. privileged)) 7 seeded =
     [(None, [(Some 4, Some 1)]), (None, [(Some (9 / 2), Some 2)]),
      (None, [(Some (7 / 2), Some 2)]), (None, [(Some 2, Some 1)]),
      (None, [(Some 0, Some 0)])]"
  by code_simp

text \<open>
  Claim C3. The failing input. X has one review, by user 1, and the aggregate
  \<^verbatim>\<open>(4.00, 1)\<close>, as an insert in a privileged session leaves them; user 1 deletes the
  review through \<^verbatim>\<open>MyReviews.handleDeleteReview\<close>. The review is gone and the
  aggregate of X is still \<^verbatim>\<open>(4.00, 1)\<close>.
\<close>

theorem client_delete_of_last_review_resets_nothing:
  "run privileged (InsertReview (rated 11 1 7 4)) seeded = (None, once_rated)
   \<and> reviews_of once_rated 7 = [rated 11 1 7 4]
   \<and> aggregate once_rated 7 = [(Some 4, Some 1)]
   \<and> handleDeleteReview (Some 1) 11 True once_rated = (Some ''Review deleted'', retracted)
   \<and> reviews_of retracted 7 = []
   \<and> aggregate retracted 7 = [(Some 4, Some 1)]"
  by code_simp

text \<open>The same delete in a session that row security does not apply to resets X.\<close>

lemma privileged_delete_of_last_review:
  "run privileged (DeleteReviews (\<lambda>r. reviews_id r = 11)) once_rated = (None, seeded)"
  by code_simp

end
